theory Spec2Isabelle
  imports Main "HOL-Library.AList" "HOL-Library.Multiset"
begin

section \<open>Strings\<close>

text \<open>
  Strings are lists of characters. The string methods the crawler uses are written out
  as list functions: \<open>s.startsWith(p)\<close>, \<open>s.endsWith(p)\<close>, \<open>s.slice(n)\<close>
  (\<open>sliceFrom\<close>), \<open>s.slice(0, -1)\<close> (\<open>sliceDropLast\<close>), \<open>s.includes(p)\<close> and
  \<open>s.toLowerCase()\<close>. The strings that reach \<open>toLowerCase\<close> are host names and path
  names of parsed URLs, which the URL serialiser keeps within ASCII, so lower-casing
  maps the letters A to Z and leaves every other character alone.
\<close>

fun startsWith :: "string \<Rightarrow> string \<Rightarrow> bool" where
  "startsWith s [] = True"
| "startsWith [] (d # p) = False"
| "startsWith (c # s) (d # p) = (if c = d then startsWith s p else False)"

definition endsWith :: "string \<Rightarrow> string \<Rightarrow> bool" where
  "endsWith s p = startsWith (rev s) (rev p)"

definition sliceFrom :: "nat \<Rightarrow> string \<Rightarrow> string" where
  "sliceFrom n s = drop n s"

definition sliceDropLast :: "string \<Rightarrow> string" where
  "sliceDropLast s = butlast s"

fun includesStr :: "string \<Rightarrow> string \<Rightarrow> bool" where
  "includesStr [] p = startsWith [] p"
| "includesStr (c # s) p = (if startsWith (c # s) p then True else includesStr s p)"

definition lowerChar :: "char \<Rightarrow> char" where
  "lowerChar c =
     (case map_of (zip ''ABCDEFGHIJKLMNOPQRSTUVWXYZ'' ''abcdefghijklmnopqrstuvwxyz'') c of
        None \<Rightarrow> c
      | Some d \<Rightarrow> d)"

definition toLowerCase :: "string \<Rightarrow> string" where
  "toLowerCase s = map lowerChar s"

definition digitChar :: "nat \<Rightarrow> char" where
  "digitChar d = char_of (48 + d)"

function showNat :: "nat \<Rightarrow> string" where
  "showNat n = (if n < 10 then [digitChar n] else showNat (n div 10) @ [digitChar (n mod 10)])"
  by pat_completeness auto
termination
  by (relation "measure id") auto

section \<open>The platform\<close>

text \<open>
  The crawler runs on a JavaScript platform whose URL constructor, HTML parser and
  network are not part of the repository. They are parameters of the model:
  \<^item> \<open>newURL s\<close> is \<open>new URL(s)\<close>: the parsed URL, or \<open>None\<close> where the constructor
    throws its \<open>TypeError\<close>;
  \<^item> \<open>newURLBase h b\<close> is \<open>new URL(h, b)\<close>;
  \<^item> \<open>anchorHrefs html\<close> is the list, in document order, of the \<open>href\<close> attribute
    values of the elements \<open>querySelectorAll("a[href]")\<close> finds in \<open>new JSDOM(html)\<close>;
  \<^item> \<open>fetch u\<close> is the outcome of \<open>await fetch(u)\<close>: \<open>Inl msg\<close> when the promise
    rejects with an error whose message is \<open>msg\<close>, \<open>Inr res\<close> for a response.
  Every theorem about the crawler holds for every platform; the closed examples run on
  the small platform defined further down.
\<close>

record url =
  protocol :: string
  hostname :: string
  pathname :: string
  search :: string
  hash :: string
  href :: string

datatype exn = TypeError string | Error string

fun message :: "exn \<Rightarrow> string" where
  "message (TypeError m) = m"
| "message (Error m) = m"

text \<open>
  A response: the status code and text, the \<open>content-type\<close> header (\<open>None\<close> is the
  \<open>null\<close> that \<open>headers.get\<close> returns for a missing header) and the outcome of
  \<open>res.text()\<close>, which may itself reject.
\<close>

record response =
  status :: nat
  statusText :: string
  contentType :: "string option"
  body :: "exn + string"

record platform =
  newURL :: "string \<Rightarrow> url option"
  newURLBase :: "string \<Rightarrow> string \<Rightarrow> url option"
  anchorHrefs :: "string \<Rightarrow> string list"
  fetch :: "string \<Rightarrow> string + response"

definition invalidURL :: exn where
  "invalidURL = TypeError ''Invalid URL''"

section \<open>The visit table\<close>

text \<open>
  The table \<open>pages\<close> is a plain object \<open>{}\<close> whose own properties are the keys. It is
  modelled by the list of its own properties in insertion order, which is the order
  \<open>Object.entries\<close> reports for keys that are not array indices; counts are natural
  numbers (they start at 1 and are only incremented).

  Reading \<open>pages[k]\<close> finds the own property if there is one. Otherwise the lookup
  continues in \<open>Object.prototype\<close> and yields \<open>undefined\<close>, a function or, for
  \<open>__proto__\<close>, the prototype object; none of these is \<open>> 0\<close>. So \<open>pages[k] > 0\<close>
  holds exactly when \<open>k\<close> is an own property with a positive count.

  Writing \<open>pages[k] = v\<close> updates or creates the own property, with one exception:
  \<open>__proto__\<close> is an accessor property of \<open>Object.prototype\<close>, so when the object
  has no own property of that name the assignment calls the inherited setter, which
  ignores a value that is neither an object nor \<open>null\<close>, and the table is left as it was.
\<close>

type_synonym table = "(string \<times> nat) list"

definition visited :: "table \<Rightarrow> string \<Rightarrow> bool" where
  "visited pgs k = (case map_of pgs k of None \<Rightarrow> False | Some c \<Rightarrow> 0 < c)"

definition increment :: "table \<Rightarrow> string \<Rightarrow> table" where
  "increment pgs k = (case map_of pgs k of None \<Rightarrow> pgs | Some c \<Rightarrow> AList.update k (Suc c) pgs)"

definition assignProp :: "table \<Rightarrow> string \<Rightarrow> nat \<Rightarrow> table" where
  "assignProp pgs k v =
     (if k = ''__proto__'' \<and> map_of pgs k = None then pgs else AList.update k v pgs)"


section \<open>crawl.js\<close>

definition normalizeURL :: "platform \<Rightarrow> string \<Rightarrow> exn + string" where
  "normalizeURL pf u =
     (case newURL pf u of
        None \<Rightarrow> Inl invalidURL
      | Some parsedURL \<Rightarrow>
          (let hostname0 = hostname parsedURL;
               pathname0 = pathname parsedURL;
               hostname1 = (if startsWith hostname0 ''www.'' then sliceFrom 4 hostname0
                            else hostname0);
               pathname1 = (if endsWith pathname0 ''/'' then sliceDropLast pathname0
                            else pathname0)
           in Inr (toLowerCase (hostname1 @ pathname1))))"

text \<open>
  \<open>getURLsFromHTML\<close> returns the absolute URLs; \<open>getURLsLog\<close> is what it prints on the
  way, one line for each anchor whose \<open>href\<close> the constructor refuses.
\<close>

definition getURLsFromHTML :: "platform \<Rightarrow> string \<Rightarrow> string \<Rightarrow> string list" where
  "getURLsFromHTML pf html baseURL =
     map the (filter (\<lambda>r. r \<noteq> None)
       (map (\<lambda>anchor. map_option href (newURLBase pf anchor baseURL)) (anchorHrefs pf html)))"

definition getURLsLog :: "platform \<Rightarrow> string \<Rightarrow> string \<Rightarrow> string list" where
  "getURLsLog pf html baseURL =
     map (\<lambda>anchor. message invalidURL @ '': '' @ anchor)
       (filter (\<lambda>anchor. newURLBase pf anchor baseURL = None) (anchorHrefs pf html))"

definition fetchHTML :: "platform \<Rightarrow> string \<Rightarrow> exn + string" where
  "fetchHTML pf u =
     (case fetch pf u of
        Inl msg \<Rightarrow> Inl (Error (''Got Network error: '' @ msg))
      | Inr res \<Rightarrow>
          if status res > 399
          then Inl (Error (''Got HTTP error: '' @ showNat (status res) @ '' '' @ statusText res))
          else (case contentType res of
                  None \<Rightarrow> Inl (Error ''Got non-HTML response: null'')
                | Some ct \<Rightarrow>
                    if \<not> includesStr ct ''text/html''
                    then Inl (Error (''Got non-HTML response: '' @ ct))
                    else body res))"

text \<open>
  The effects of a crawl are recorded in a trace: \<open>Request u\<close> for each call
  \<open>fetch(u)\<close> and \<open>Console s\<close> for each line printed. The state threaded through the
  traversal is the table together with the trace so far.
\<close>

datatype event = Request string | Console string

record crawl =
  pages :: table
  trace :: "event list"

text \<open>
  \<open>crawlPage\<close> recurses as long as pages keep yielding new links, so the model carries
  the recursion depth still allowed as its first argument: \<open>None\<close> means that this depth
  did not suffice. A result \<open>Some (Inl e)\<close> is an exception \<open>e\<close> leaving \<open>crawlPage\<close>,
  \<open>Some (Inr st)\<close> a normal return. The loop over \<open>nextURLs\<close> is \<open>crawlLinks\<close>.
\<close>

fun crawlPage :: "nat \<Rightarrow> platform \<Rightarrow> string \<Rightarrow> string \<Rightarrow> crawl \<Rightarrow> (exn + crawl) option"
  and crawlLinks :: "nat \<Rightarrow> platform \<Rightarrow> string \<Rightarrow> string list \<Rightarrow> crawl \<Rightarrow> (exn + crawl) option"
where
  "crawlPage 0 pf baseURL currentURL st = None"
| "crawlPage (Suc n) pf baseURL currentURL st =
     (case newURL pf currentURL of
        None \<Rightarrow> Some (Inl invalidURL)
      | Some currentURLObj \<Rightarrow>
     (case newURL pf baseURL of
        None \<Rightarrow> Some (Inl invalidURL)
      | Some baseURLObj \<Rightarrow>
          if hostname currentURLObj \<noteq> hostname baseURLObj then Some (Inr st)
          else
     (case normalizeURL pf currentURL of
        Inl e \<Rightarrow> Some (Inl e)
      | Inr normalizedURL \<Rightarrow>
          if visited (pages st) normalizedURL
          then Some (Inr (st\<lparr>pages := increment (pages st) normalizedURL\<rparr>))
          else
            (let st1 = st\<lparr>pages := assignProp (pages st) normalizedURL 1,
                          trace := trace st @ [Console (''crawling '' @ currentURL),
                                               Request currentURL]\<rparr>
             in case fetchHTML pf currentURL of
                  Inl err \<Rightarrow> Some (Inr (st1\<lparr>trace := trace st1 @ [Console (message err)]\<rparr>))
                | Inr html \<Rightarrow>
                    crawlLinks n pf baseURL (getURLsFromHTML pf html baseURL)
                      (st1\<lparr>trace := trace st1 @ map Console (getURLsLog pf html baseURL)\<rparr>)))))"
| "crawlLinks n pf baseURL [] st = Some (Inr st)"
| "crawlLinks n pf baseURL (nextURL # rest) st =
     (case crawlPage n pf baseURL nextURL st of
        None \<Rightarrow> None
      | Some (Inl e) \<Rightarrow> Some (Inl e)
      | Some (Inr st') \<Rightarrow> crawlLinks n pf baseURL rest st')"

section \<open>Runs that return\<close>

text \<open>
  A URL is on the seed's site when both parse and their host names are equal
  (the test \<open>currentURLObj.hostname !== baseURLObj.hostname\<close>).
\<close>

definition onsite :: "platform \<Rightarrow> string \<Rightarrow> string \<Rightarrow> bool" where
  "onsite pf baseURL u =
     (case newURL pf u of
        None \<Rightarrow> False
      | Some c \<Rightarrow> (case newURL pf baseURL of None \<Rightarrow> False | Some b \<Rightarrow> hostname c = hostname b))"

text \<open>The state after a new page was entered and its request was sent.\<close>

definition entered :: "crawl \<Rightarrow> string \<Rightarrow> string \<Rightarrow> crawl" where
  "entered st k currentURL =
     st\<lparr>pages := assignProp (pages st) k 1,
        trace := trace st @ [Console (''crawling '' @ currentURL), Request currentURL]\<rparr>"

definition logged :: "crawl \<Rightarrow> string list \<Rightarrow> crawl" where
  "logged st ls = st\<lparr>trace := trace st @ map Console ls\<rparr>"

text \<open>
  The normal returns of \<open>crawlPage\<close> and of its loop as a big-step relation, one rule
  for each way through the function body. \<open>pageRun pf b u st st'\<close>: the call
  \<open>crawlPage(b, u, pages)\<close> started in \<open>st\<close> returns in \<open>st'\<close>.
\<close>

inductive pageRun :: "platform \<Rightarrow> string \<Rightarrow> string \<Rightarrow> crawl \<Rightarrow> crawl \<Rightarrow> bool"
  and linksRun :: "platform \<Rightarrow> string \<Rightarrow> string list \<Rightarrow> crawl \<Rightarrow> crawl \<Rightarrow> bool"
  for pf :: platform and baseURL :: string
where
  offsite:
    "newURL pf u = Some c \<Longrightarrow> newURL pf baseURL = Some b \<Longrightarrow> hostname c \<noteq> hostname b
     \<Longrightarrow> pageRun pf baseURL u st st"
| revisit:
    "onsite pf baseURL u \<Longrightarrow> normalizeURL pf u = Inr k \<Longrightarrow> visited (pages st) k
     \<Longrightarrow> pageRun pf baseURL u st (st\<lparr>pages := increment (pages st) k\<rparr>)"
| failed:
    "onsite pf baseURL u \<Longrightarrow> normalizeURL pf u = Inr k \<Longrightarrow> \<not> visited (pages st) k
     \<Longrightarrow> fetchHTML pf u = Inl err
     \<Longrightarrow> pageRun pf baseURL u st (logged (entered st k u) [message err])"
| expanded:
    "onsite pf baseURL u \<Longrightarrow> normalizeURL pf u = Inr k \<Longrightarrow> \<not> visited (pages st) k
     \<Longrightarrow> fetchHTML pf u = Inr html
     \<Longrightarrow> linksRun pf baseURL (getURLsFromHTML pf html baseURL)
           (logged (entered st k u) (getURLsLog pf html baseURL)) st'
     \<Longrightarrow> pageRun pf baseURL u st st'"
| finished: "linksRun pf baseURL [] st st"
| continued:
    "pageRun pf baseURL u st st1 \<Longrightarrow> linksRun pf baseURL us st1 st'
     \<Longrightarrow> linksRun pf baseURL (u # us) st st'"

section \<open>report.js\<close>





section \<open>Notions the statements use\<close>

text \<open>
  \<open>grows p p'\<close>: every key of \<open>p\<close> is a key of \<open>p'\<close> with a count at least as large.
\<close>

definition grows :: "table \<Rightarrow> table \<Rightarrow> bool" where
  "grows p p' = (\<forall>k c. map_of p k = Some c \<longrightarrow> (\<exists>c'. map_of p' k = Some c' \<and> c \<le> c'))"

definition allPositive :: "table \<Rightarrow> bool" where
  "allPositive p = (\<forall>k c. map_of p k = Some c \<longrightarrow> 0 < c)"

text \<open>
  The URLs requested in a trace, in order, and their keys. \<open>properKeys\<close> leaves out
  the one key the table cannot record.
\<close>

fun requests :: "event list \<Rightarrow> string list" where
  "requests [] = []"
| "requests (Request u # tr) = u # requests tr"
| "requests (Console s # tr) = requests tr"

definition fetchedKeys :: "platform \<Rightarrow> event list \<Rightarrow> string list" where
  "fetchedKeys pf tr =
     concat (map (\<lambda>u. case normalizeURL pf u of Inl e \<Rightarrow> [] | Inr k \<Rightarrow> [k]) (requests tr))"

definition properKeys :: "platform \<Rightarrow> event list \<Rightarrow> string list" where
  "properKeys pf tr = filter (\<lambda>k. k \<noteq> ''__proto__'') (fetchedKeys pf tr)"


text \<open>
  \<open>hits pf b k us\<close> counts the URLs of \<open>us\<close> that are on the seed's site and have the
  key \<open>k\<close>; \<open>linksFound pf b k tr\<close> is the number of such links on the pages that the
  requests of the trace \<open>tr\<close> fetched: the link occurrences the crawl discovered for \<open>k\<close>.
\<close>

definition hits :: "platform \<Rightarrow> string \<Rightarrow> string \<Rightarrow> string list \<Rightarrow> nat" where
  "hits pf baseURL k us =
     length (filter (\<lambda>u. onsite pf baseURL u \<and> normalizeURL pf u = Inr k) us)"

definition linksFound :: "platform \<Rightarrow> string \<Rightarrow> string \<Rightarrow> event list \<Rightarrow> nat" where
  "linksFound pf baseURL k tr =
     sum_list (map (\<lambda>u. case fetchHTML pf u of
                           Inl e \<Rightarrow> 0
                         | Inr html \<Rightarrow> hits pf baseURL k (getURLsFromHTML pf html baseURL))
               (requests tr))"








section \<open>A platform for the examples\<close>

text \<open>
  The closed examples run on a small platform. Its URL constructor follows the
  platform's on plain \<open>http\<close> and \<open>https\<close> URLs: a scheme in any letter case, \<open>://\<close>, a
  host of letters, digits, \<open>-\<close>, \<open>_\<close> and \<open>.\<close> whose last label is not empty and holds
  no digit, and in which \<open>xn--\<close> does not occur; then an optional path of letters, digits and
  \<open>/ - . _ ~\<close> with no segment that starts with a dot, an optional query and an optional
  fragment of such characters and \<open>= &\<close>. On these the constructor lower-cases the
  scheme and the host, keeps the path (\<open>/\<close> if there is none), and reports the query and
  the fragment in \<open>search\<close> and \<open>hash\<close>. There is no user name, port, percent-encoding,
  IP address or dot segment in this fragment; a string outside it is refused by the
  model, also where the platform would accept it, and every example stays inside.
  \<open>resolveURL h b\<close> takes an absolute \<open>h\<close> as it is and puts a reference that starts
  with one \<open>/\<close> behind the scheme and host of \<open>b\<close>.
  \<open>anchorScan\<close> reads markup whose anchors are written \<open><a href=VALUE>\<close> with an
  unquoted value.
\<close>

fun oneOf :: "string \<Rightarrow> char \<Rightarrow> bool" where
  "oneOf [] c = False"
| "oneOf (x # xs) c = (if c = x then True else oneOf xs c)"

definition digits :: string where
  "digits = ''0123456789''"

definition hostChars :: string where
  "hostChars = ''abcdefghijklmnopqrstuvwxyz.-0123456789_''"

definition pathChars :: string where
  "pathChars = ''/abcdefghijklmnopqrstuvwxyz.-0123456789_~ABCDEFGHIJKLMNOPQRSTUVWXYZ''"

definition plainChars :: string where
  "plainChars = ''=&/abcdefghijklmnopqrstuvwxyz.-0123456789_~ABCDEFGHIJKLMNOPQRSTUVWXYZ''"

definition splitScheme :: "string \<Rightarrow> (string \<times> string) option" where
  "splitScheme s =
     (if toLowerCase (take 7 s) = ''http://'' then Some (''http:'', drop 7 s)
      else if toLowerCase (take 8 s) = ''https://'' then Some (''https:'', drop 8 s)
      else None)"

definition lastLabel :: "string \<Rightarrow> string" where
  "lastLabel h = rev (takeWhile (\<lambda>c. c \<noteq> CHR ''.'') (rev h))"

definition hostOK :: "string \<Rightarrow> bool" where
  "hostOK h = (h \<noteq> [] \<and> list_all (oneOf hostChars) h \<and> lastLabel h \<noteq> []
               \<and> \<not> list_ex (oneOf digits) (lastLabel h) \<and> \<not> includesStr h ''xn--'')"

definition pathOK :: "string \<Rightarrow> bool" where
  "pathOK p = (list_all (oneOf pathChars) p \<and> \<not> includesStr p ''/.'')"

definition parseURL :: "string \<Rightarrow> url option" where
  "parseURL s =
     (case splitScheme s of
        None \<Rightarrow> None
      | Some (proto, rest) \<Rightarrow>
          (let host = toLowerCase (takeWhile (\<lambda>c. \<not> oneOf ''/?#'' c) rest);
               r1 = dropWhile (\<lambda>c. \<not> oneOf ''/?#'' c) rest;
               path = takeWhile (\<lambda>c. \<not> oneOf ''?#'' c) r1;
               r2 = dropWhile (\<lambda>c. \<not> oneOf ''?#'' c) r1;
               query = takeWhile (\<lambda>c. c \<noteq> CHR ''#'') r2;
               frag = dropWhile (\<lambda>c. c \<noteq> CHR ''#'') r2;
               path1 = (if path = [] then ''/'' else path)
           in if hostOK host \<and> pathOK path \<and> list_all (oneOf plainChars) (drop 1 query)
                 \<and> list_all (oneOf plainChars) (drop 1 frag)
              then Some \<lparr>protocol = proto, hostname = host, pathname = path1,
                         search = (if query = ''?'' then [] else query),
                         hash = (if frag = ''#'' then [] else frag),
                         href = proto @ ''//'' @ host @ path1 @ query @ frag\<rparr>
              else None))"

definition resolveURL :: "string \<Rightarrow> string \<Rightarrow> url option" where
  "resolveURL h b =
     (case parseURL b of
        None \<Rightarrow> None
      | Some bu \<Rightarrow>
          (case parseURL h of
             Some u \<Rightarrow> Some u
           | None \<Rightarrow>
               if take 1 h = ''/'' \<and> take 2 h \<noteq> ''//''
               then parseURL (protocol bu @ ''//'' @ hostname bu @ h)
               else None))"

fun anchorScan :: "string \<Rightarrow> string list" where
  "anchorScan [] = []"
| "anchorScan (c # s) =
     (if startsWith (c # s) ''<a href=''
      then takeWhile (\<lambda>x. x \<noteq> CHR ''>'' \<and> x \<noteq> CHR '' '') (drop 8 (c # s)) # anchorScan s
      else anchorScan s)"

text \<open>
  The network of an example is a function from the URL requested to the outcome;
  \<open>web net\<close> is the platform with that network.
\<close>

definition web :: "(string \<Rightarrow> string + response) \<Rightarrow> platform" where
  "web net = \<lparr>newURL = parseURL, newURLBase = resolveURL, anchorHrefs = anchorScan,
              fetch = net\<rparr>"

definition noResponse :: "string + response" where
  "noResponse = Inl ''fetch failed''"

definition htmlPage :: "string \<Rightarrow> string + response" where
  "htmlPage markup = Inr \<lparr>status = 200, statusText = ''OK'',
                           contentType = Some ''text/html; charset=utf-8'', body = Inr markup\<rparr>"

definition notFound :: "string + response" where
  "notFound = Inr \<lparr>status = 404, statusText = ''Not Found'',
                    contentType = Some ''text/html'', body = Inr []\<rparr>"

definition offline :: "string \<Rightarrow> string + response" where
  "offline u = noResponse"

text \<open>A fresh crawl starts from the empty table.\<close>

definition start :: crawl where
  "start = \<lparr>pages = [], trace = []\<rparr>"

text \<open>
  The site of the examples. The home page links to \<open>/b\<close> and \<open>/c\<close>, to another host, to
  a reference the constructor refuses and to a page that answers 404; \<open>/b\<close> links to
  \<open>/c\<close> and back to the home page; \<open>/c\<close> has no links.
\<close>

definition site :: "string \<Rightarrow> string + response" where
  "site u =
     (if u = ''http://x.org/''
      then htmlPage (''<a href=/b>B</a> <a href=/c>C</a> <a href=http://y.org/>Y</a> ''
                     @ ''<a href=http://>bad</a> <a href=/gone>D</a>'')
      else if u = ''http://x.org/b'' then htmlPage ''<a href=/c>C</a> <a href=/>home</a>''
      else if u = ''http://x.org/c'' then htmlPage ''no links''
      else if u = ''http://x.org/gone'' then notFound
      else noResponse)"


definition siteFinal :: crawl where
  "siteFinal =
     \<lparr>pages = [(''x.org'', 2), (''x.org/b'', 1), (''x.org/c'', 2), (''x.org/gone'', 1)],
      trace = [Console ''crawling http://x.org/'', Request ''http://x.org/'',
               Console ''Invalid URL: http://'',
               Console ''crawling http://x.org/b'', Request ''http://x.org/b'',
               Console ''crawling http://x.org/c'', Request ''http://x.org/c'',
               Console ''crawling http://x.org/gone'', Request ''http://x.org/gone'',
               Console ''Got HTTP error: 404 Not Found'']\<rparr>"

text \<open>
  A host named \<open>__proto__\<close>: its home page answers 404 in \<open>protoGone\<close> and links to
  itself in \<open>protoLoop\<close>.
\<close>

definition protoGone :: "string \<Rightarrow> string + response" where
  "protoGone u = (if u = ''http://__proto__/'' then notFound else noResponse)"

definition protoLoop :: "string \<Rightarrow> string + response" where
  "protoLoop u =
     (if u = ''http://__proto__/'' then htmlPage ''<a href=/>again</a>'' else noResponse)"


section \<open>One call of crawlPage, case by case\<close>



lemma crawlPage_offsite:
  "newURL pf u = Some c \<Longrightarrow> newURL pf baseURL = Some b \<Longrightarrow> hostname c \<noteq> hostname b
   \<Longrightarrow> crawlPage (Suc n) pf baseURL u st = Some (Inr st)"
  by simp

lemma onsite_normalizes:
  "onsite pf baseURL u \<Longrightarrow> \<exists>k. normalizeURL pf u = Inr k"
  by (auto simp: onsite_def normalizeURL_def Let_def split: option.splits)

lemma crawlPage_revisit:
  "onsite pf baseURL u \<Longrightarrow> normalizeURL pf u = Inr k \<Longrightarrow> visited (pages st) k
   \<Longrightarrow> crawlPage (Suc n) pf baseURL u st = Some (Inr (st\<lparr>pages := increment (pages st) k\<rparr>))"
  by (auto simp: onsite_def split: option.splits)

lemma crawlPage_failed:
  "onsite pf baseURL u \<Longrightarrow> normalizeURL pf u = Inr k \<Longrightarrow> \<not> visited (pages st) k
   \<Longrightarrow> fetchHTML pf u = Inl err
   \<Longrightarrow> crawlPage (Suc n) pf baseURL u st = Some (Inr (logged (entered st k u) [message err]))"
  by (auto simp: onsite_def entered_def logged_def split: option.splits)

lemma crawlPage_expanded:
  "onsite pf baseURL u \<Longrightarrow> normalizeURL pf u = Inr k \<Longrightarrow> \<not> visited (pages st) k
   \<Longrightarrow> fetchHTML pf u = Inr html
   \<Longrightarrow> crawlPage (Suc n) pf baseURL u st =
       crawlLinks n pf baseURL (getURLsFromHTML pf html baseURL)
         (logged (entered st k u) (getURLsLog pf html baseURL))"
  by (auto simp: onsite_def entered_def logged_def split: option.splits)

lemma crawlPage_cases:
  assumes "crawlPage (Suc n) pf baseURL u st = Some r"
  shows "(newURL pf u = None \<or> newURL pf baseURL = None) \<and> r = Inl invalidURL
       \<or> (\<exists>c b. newURL pf u = Some c \<and> newURL pf baseURL = Some b
              \<and> hostname c \<noteq> hostname b \<and> r = Inr st)
       \<or> (\<exists>k. onsite pf baseURL u \<and> normalizeURL pf u = Inr k \<and> visited (pages st) k
              \<and> r = Inr (st\<lparr>pages := increment (pages st) k\<rparr>))
       \<or> (\<exists>k err. onsite pf baseURL u \<and> normalizeURL pf u = Inr k \<and> \<not> visited (pages st) k
              \<and> fetchHTML pf u = Inl err \<and> r = Inr (logged (entered st k u) [message err]))
       \<or> (\<exists>k html. onsite pf baseURL u \<and> normalizeURL pf u = Inr k \<and> \<not> visited (pages st) k
              \<and> fetchHTML pf u = Inr html
              \<and> crawlLinks n pf baseURL (getURLsFromHTML pf html baseURL)
                   (logged (entered st k u) (getURLsLog pf html baseURL)) = Some r)"
proof (cases "newURL pf u")
  case None
  with assms show ?thesis by simp
next
  case (Some c)
  note cur = this
  show ?thesis
  proof (cases "newURL pf baseURL")
    case None
    with assms cur show ?thesis by simp
  next
    case (Some b)
    note base = this
    show ?thesis
    proof (cases "hostname c = hostname b")
      case False
      with assms cur base show ?thesis by simp
    next
      case True
      then have on: "onsite pf baseURL u" by (simp add: onsite_def cur base)
      then obtain k where k: "normalizeURL pf u = Inr k" using onsite_normalizes by blast
      show ?thesis
      proof (cases "visited (pages st) k")
        case True
        with assms on k show ?thesis by (simp add: crawlPage_revisit del: crawlPage.simps)
      next
        case False
        note fresh = this
        show ?thesis
        proof (cases "fetchHTML pf u")
          case (Inl err)
          with assms on k fresh show ?thesis
            by (simp add: crawlPage_failed del: crawlPage.simps)
        next
          case (Inr html)
          with assms on k fresh show ?thesis
            by (simp add: crawlPage_expanded del: crawlPage.simps)
        qed
      qed
    qed
  qed
qed

lemma crawlLinks_cases:
  assumes "crawlLinks n pf baseURL (u # us) st = Some r"
  shows "crawlPage n pf baseURL u st = Some r \<and> (\<exists>e. r = Inl e)
       \<or> (\<exists>st1. crawlPage n pf baseURL u st = Some (Inr st1)
              \<and> crawlLinks n pf baseURL us st1 = Some r)"
  using assms by (auto split: option.splits sum.splits)

text \<open>Every normal return of the function is a run of the relation.\<close>

lemma crawl_sound:
  "crawlPage n pf baseURL u st = Some (Inr st') \<Longrightarrow> pageRun pf baseURL u st st'"
  "crawlLinks n pf baseURL us st = Some (Inr st') \<Longrightarrow> linksRun pf baseURL us st st'"
proof (induction n pf baseURL u st and n pf baseURL us st arbitrary: st' and st'
       rule: crawlPage_crawlLinks.induct)
  case (1 pf baseURL currentURL st)
  then show ?case by simp
next
  case (2 n pf baseURL currentURL st)
  from crawlPage_cases [OF "2.prems"] show ?case
  proof (elim disjE conjE exE)
    fix k html
    assume h: "onsite pf baseURL currentURL" "normalizeURL pf currentURL = Inr k"
      "\<not> visited (pages st) k" "fetchHTML pf currentURL = Inr html"
      "crawlLinks n pf baseURL (getURLsFromHTML pf html baseURL)
         (logged (entered st k currentURL) (getURLsLog pf html baseURL)) = Some (Inr st')"
    from h(1) obtain c b where cb: "newURL pf currentURL = Some c" "newURL pf baseURL = Some b"
      "hostname c = hostname b"
      by (auto simp: onsite_def split: option.splits)
    have "linksRun pf baseURL (getURLsFromHTML pf html baseURL)
            (logged (entered st k currentURL) (getURLsLog pf html baseURL)) st'"
      using "2.IH" [OF cb(1) cb(2) _ h(2) h(3) _ h(4)] cb(3) h(5)
      by (simp add: entered_def logged_def)
    with h show ?thesis by (blast intro: pageRun_linksRun.expanded)
  qed (auto intro: pageRun_linksRun.intros)
next
  case (3 n pf baseURL st)
  then show ?case by (auto intro: pageRun_linksRun.finished)
next
  case (4 n pf baseURL nextURL rest st)
  from crawlLinks_cases [OF "4.prems"] obtain st1 where
    s: "crawlPage n pf baseURL nextURL st = Some (Inr st1)"
       "crawlLinks n pf baseURL rest st1 = Some (Inr st')"
    by auto
  from "4.IH"(1) [OF s(1)] "4.IH"(2) [OF s(1) _ s(2)] show ?case
    by (auto intro: pageRun_linksRun.continued)
qed

section \<open>Invariants of a run\<close>

lemma grows_refl: "grows p p"
  by (simp add: grows_def)

lemma grows_trans: "grows p q \<Longrightarrow> grows q r \<Longrightarrow> grows p r"
  unfolding grows_def by (meson le_trans)

lemma grows_increment: "grows p (increment p k)"
  by (auto simp: grows_def increment_def update_conv' split: option.splits)

lemma grows_assignProp: "\<not> visited p k \<Longrightarrow> 0 < v \<Longrightarrow> grows p (assignProp p k v)"
  by (auto simp: grows_def assignProp_def visited_def update_conv' split: option.splits)

lemma pages_logged [simp]: "pages (logged st ls) = pages st"
  by (simp add: logged_def)

lemma pages_entered [simp]: "pages (entered st k u) = assignProp (pages st) k 1"
  by (simp add: entered_def)

lemma trace_logged [simp]: "trace (logged st ls) = trace st @ map Console ls"
  by (simp add: logged_def)

lemma trace_entered [simp]:
  "trace (entered st k u) = trace st @ [Console (''crawling '' @ u), Request u]"
  by (simp add: entered_def)

lemma run_grows:
  "pageRun pf b u st st' \<Longrightarrow> grows (pages st) (pages st')"
  "linksRun pf b us st st' \<Longrightarrow> grows (pages st) (pages st')"
proof (induction rule: pageRun_linksRun.inducts)
  case (offsite u c b st)
  show ?case by (rule grows_refl)
next
  case (revisit u k st)
  show ?case by (simp add: grows_increment)
next
  case (failed u k st err)
  then show ?case by (simp add: grows_assignProp)
next
  case (expanded u k st html st')
  have "grows (pages st) (assignProp (pages st) k 1)"
    using expanded by (simp add: grows_assignProp)
  with expanded show ?case by (auto intro: grows_trans)
next
  case (finished st)
  show ?case by (rule grows_refl)
next
  case (continued u st st1 us st')
  then show ?case by (blast intro: grows_trans)
qed

lemma allPositive_increment: "allPositive p \<Longrightarrow> allPositive (increment p k)"
  by (auto simp: allPositive_def increment_def update_conv' split: option.splits if_splits)

lemma allPositive_assignProp: "allPositive p \<Longrightarrow> 0 < v \<Longrightarrow> allPositive (assignProp p k v)"
  by (auto simp: allPositive_def assignProp_def update_conv' split: option.splits if_splits)

lemma run_positive:
  "pageRun pf b u st st' \<Longrightarrow> allPositive (pages st) \<Longrightarrow> allPositive (pages st')"
  "linksRun pf b us st st' \<Longrightarrow> allPositive (pages st) \<Longrightarrow> allPositive (pages st')"
  by (induction rule: pageRun_linksRun.inducts)
     (simp_all add: allPositive_increment allPositive_assignProp)

lemma requests_append [simp]: "requests (a @ b) = requests a @ requests b"
  by (induction a rule: requests.induct) simp_all

lemma requests_Console [simp]: "requests (map Console ls) = []"
  by (induction ls) simp_all

lemma fetchedKeys_append [simp]: "fetchedKeys pf (a @ b) = fetchedKeys pf a @ fetchedKeys pf b"
  by (simp add: fetchedKeys_def)

lemma linksFound_append [simp]:
  "linksFound pf b k (tr @ tr') = linksFound pf b k tr + linksFound pf b k tr'"
  by (simp add: linksFound_def)

lemma linksFound_Console [simp]: "linksFound pf b k (map Console ls) = 0"
  by (simp add: linksFound_def)


lemma hits_Nil [simp]: "hits pf b k [] = 0"
  by (simp add: hits_def)






lemma properKeys_append [simp]: "properKeys pf (a @ b) = properKeys pf a @ properKeys pf b"
  by (simp add: properKeys_def)

lemma fetchedKeys_Console [simp]: "fetchedKeys pf (map Console ls) = []"
  by (simp add: fetchedKeys_def)

lemma fetchedKeys_enter:
  "normalizeURL pf u = Inr k \<Longrightarrow> fetchedKeys pf [Console s, Request u] = [k]"
  by (simp add: fetchedKeys_def)




lemma grows_enter:
  "\<not> visited (pages st) k \<Longrightarrow> grows (pages st) (pages (logged (entered st k u) ls))"
  by (simp add: grows_assignProp)


lemma map_of_assignProp_origin:
  "map_of (assignProp p k v) x = Some c \<Longrightarrow> x = k \<or> map_of p x = Some c"
  by (auto simp: assignProp_def update_conv' split: if_splits)

lemma map_of_increment_origin:
  "map_of (increment p k) x = Some c \<Longrightarrow> map_of p x \<noteq> None"
  by (auto simp: increment_def update_conv' split: if_splits option.splits)

lemma run_origin:
  "pageRun pf b u st st' \<Longrightarrow> map_of (pages st') x = Some c \<Longrightarrow>
     map_of (pages st) x \<noteq> None \<or> (\<exists>y. onsite pf b y \<and> normalizeURL pf y = Inr x)"
  "linksRun pf b us st st' \<Longrightarrow> map_of (pages st') x = Some c \<Longrightarrow>
     map_of (pages st) x \<noteq> None \<or> (\<exists>y. onsite pf b y \<and> normalizeURL pf y = Inr x)"
proof (induction arbitrary: c and c rule: pageRun_linksRun.inducts)
  case (offsite u c' b' st)
  then show ?case by simp
next
  case (revisit u k st)
  then show ?case using map_of_increment_origin by fastforce
next
  case (failed u k st err)
  then show ?case using map_of_assignProp_origin by fastforce
next
  case (expanded u k st html st')
  have "map_of (pages (logged (entered st k u) (getURLsLog pf html b))) x \<noteq> None
        \<or> (\<exists>y. onsite pf b y \<and> normalizeURL pf y = Inr x)"
    using expanded by blast
  then show ?case
  proof
    assume "map_of (pages (logged (entered st k u) (getURLsLog pf html b))) x \<noteq> None"
    then obtain c' where "map_of (assignProp (pages st) k 1) x = Some c'" by auto
    then have "x = k \<or> map_of (pages st) x = Some c'" by (rule map_of_assignProp_origin)
    with expanded show ?thesis by auto
  qed simp
next
  case (finished st)
  then show ?case by simp
next
  case (continued u st st1 us st')
  have "map_of (pages st1) x \<noteq> None \<or> (\<exists>y. onsite pf b y \<and> normalizeURL pf y = Inr x)"
    using continued by blast
  then show ?case
  proof
    assume "map_of (pages st1) x \<noteq> None"
    then obtain c' where "map_of (pages st1) x = Some c'" by auto
    with continued show ?thesis by blast
  qed simp
qed







section \<open>Errors\<close>




section \<open>Lower case and the parts of a key\<close>

lemma lowerChar_cases:
  "lowerChar c = c \<or> lowerChar c \<in> set ''abcdefghijklmnopqrstuvwxyz''"
proof (cases "map_of (zip ''ABCDEFGHIJKLMNOPQRSTUVWXYZ'' ''abcdefghijklmnopqrstuvwxyz'') c")
  case None
  have "lowerChar c = c" unfolding lowerChar_def None by simp
  then show ?thesis ..
next
  case (Some d)
  then have "(c, d) \<in> set (zip ''ABCDEFGHIJKLMNOPQRSTUVWXYZ'' ''abcdefghijklmnopqrstuvwxyz'')"
    by (rule map_of_SomeD)
  then have d: "d \<in> set ''abcdefghijklmnopqrstuvwxyz''" by (rule set_zip_rightD)
  have "lowerChar c = d" unfolding lowerChar_def Some by simp
  with d show ?thesis by blast
qed



lemma slash_not_small: "\<not> list_ex (\<lambda>d. d = CHR ''/'') ''abcdefghijklmnopqrstuvwxyz''"
  by code_simp

lemma lowerChar_of_slash: "lowerChar CHR ''/'' = CHR ''/''"
  by code_simp



lemma lowerChar_slash: "(lowerChar c = CHR ''/'') = (c = CHR ''/'')"
proof
  assume h: "lowerChar c = CHR ''/''"
  from lowerChar_cases [of c] show "c = CHR ''/''"
  proof
    assume "lowerChar c = c"
    with h show ?thesis by simp
  next
    assume "lowerChar c \<in> set ''abcdefghijklmnopqrstuvwxyz''"
    with h slash_not_small show ?thesis unfolding list_ex_iff by blast
  qed
next
  assume "c = CHR ''/''"
  then show "lowerChar c = CHR ''/''" by (simp only: lowerChar_of_slash)
qed

lemma startsWith_take: "startsWith s p = (take (length p) s = p)"
  by (induction s p rule: startsWith.induct) auto

lemma endsWith_slash: "endsWith p ''/'' = (p \<noteq> [] \<and> last p = CHR ''/'')"
proof (cases p rule: rev_cases)
  case Nil
  then show ?thesis by (simp add: endsWith_def)
next
  case (snoc q c)
  then show ?thesis by (auto simp: endsWith_def)
qed

lemma endsWith_lower:
  assumes "toLowerCase p = toLowerCase q"
  shows "endsWith p ''/'' = endsWith q ''/''"
proof -
  have len: "length p = length q" using assms by (metis length_map toLowerCase_def)
  show ?thesis
  proof (cases "p = []")
    case True
    with len show ?thesis by simp
  next
    case False
    then have q: "q \<noteq> []" using len by auto
    have "last (map lowerChar p) = last (map lowerChar q)" using assms by (simp add: toLowerCase_def)
    then have "lowerChar (last p) = lowerChar (last q)" using False q by (simp add: last_map)
    then have "(last p = CHR ''/'') = (last q = CHR ''/'')" by (metis lowerChar_slash)
    with False q show ?thesis by (simp add: endsWith_slash)
  qed
qed

lemma butlast_lower:
  "toLowerCase p = toLowerCase q \<Longrightarrow> toLowerCase (butlast p) = toLowerCase (butlast q)"
  by (metis map_butlast toLowerCase_def)

lemma toLowerCase_append: "toLowerCase (a @ b) = toLowerCase a @ toLowerCase b"
  by (simp add: toLowerCase_def)


lemma normalizeURL_Some:
  "newURL pf u = Some p \<Longrightarrow>
   normalizeURL pf u =
     Inr (toLowerCase ((if startsWith (hostname p) ''www.'' then sliceFrom 4 (hostname p)
                        else hostname p)
                     @ (if endsWith (pathname p) ''/'' then sliceDropLast (pathname p)
                        else pathname p)))"
  by (simp add: normalizeURL_def Let_def)

section \<open>The example URL constructor accepts its own output\<close>














section \<open>Sorting\<close>














section \<open>Facts about runs that the claims share\<close>








lemma fetch_failure_recorded:
  assumes "onsite pf baseURL u" "normalizeURL pf u = Inr k" "\<not> visited (pages st) k"
    "fetchHTML pf u = Inl err" "k \<noteq> ''__proto__''"
  shows "\<exists>st'. crawlPage (Suc n) pf baseURL u st = Some (Inr st')
            \<and> map_of (pages st') k = Some 1
            \<and> trace st' = trace st @ [Console (''crawling '' @ u), Request u,
                                       Console (message err)]
            \<and> crawlLinks (Suc n) pf baseURL (u # us) st = crawlLinks (Suc n) pf baseURL us st'"
  using assms
  by (simp add: crawlPage_failed assignProp_def update_conv' del: crawlPage.simps)

section \<open>The examples, evaluated\<close>

lemma web_newURL [simp]: "newURL (web net) = parseURL"
  by (simp add: web_def)


lemma parse_seed:
  "parseURL ''http://x.org/'' =
     Some \<lparr>protocol = ''http:'', hostname = ''x.org'', pathname = ''/'', search = [],
           hash = [], href = ''http://x.org/''\<rparr>"
  by code_simp

lemma parse_other:
  "parseURL ''http://y.org/'' =
     Some \<lparr>protocol = ''http:'', hostname = ''y.org'', pathname = ''/'', search = [],
           hash = [], href = ''http://y.org/''\<rparr>"
  by code_simp



lemma site_run:
  "crawlPage 3 (web site) ''http://x.org/'' ''http://x.org/'' start = Some (Inr siteFinal)"
  by code_simp



lemma site_revisit_c:
  "crawlPage 1 (web site) ''http://x.org/'' ''http://x.org/c''
     \<lparr>pages = [(''x.org/old'', 4), (''x.org/c'', 1)], trace = []\<rparr>
   = Some (Inr \<lparr>pages = [(''x.org/old'', 4), (''x.org/c'', 2)], trace = []\<rparr>)"
  by code_simp

lemma parse_upper:
  "parseURL ''https://WWW.Example.com/Path/'' =
     Some \<lparr>protocol = ''https:'', hostname = ''www.example.com'', pathname = ''/Path/'',
           search = [], hash = [], href = ''https://www.example.com/Path/''\<rparr>"
  by code_simp

lemma parse_upper_http:
  "parseURL ''http://WWW.Example.com/Path/'' =
     Some \<lparr>protocol = ''http:'', hostname = ''www.example.com'', pathname = ''/Path/'',
           search = [], hash = [], href = ''http://www.example.com/Path/''\<rparr>"
  by code_simp

lemma parse_bare:
  "parseURL ''http://Example.com/Path/'' =
     Some \<lparr>protocol = ''http:'', hostname = ''example.com'', pathname = ''/Path/'',
           search = [], hash = [], href = ''http://example.com/Path/''\<rparr>"
  by code_simp

lemma parse_lower:
  "parseURL ''http://example.com/path/'' =
     Some \<lparr>protocol = ''http:'', hostname = ''example.com'', pathname = ''/path/'',
           search = [], hash = [], href = ''http://example.com/path/''\<rparr>"
  by code_simp

lemma parse_plain:
  "parseURL ''http://example.com/path'' =
     Some \<lparr>protocol = ''http:'', hostname = ''example.com'', pathname = ''/path'',
           search = [], hash = [], href = ''http://example.com/path''\<rparr>"
  by code_simp

lemma parse_query1:
  "parseURL ''https://example.com/p?a=1'' =
     Some \<lparr>protocol = ''https:'', hostname = ''example.com'', pathname = ''/p'',
           search = ''?a=1'', hash = [], href = ''https://example.com/p?a=1''\<rparr>"
  by code_simp

lemma parse_query2:
  "parseURL ''https://example.com/p?a=2'' =
     Some \<lparr>protocol = ''https:'', hostname = ''example.com'', pathname = ''/p'',
           search = ''?a=2'', hash = [], href = ''https://example.com/p?a=2''\<rparr>"
  by code_simp


text \<open>
  On the host \<open>__proto__\<close> the home page is never recorded, so a home page that links
  to itself is fetched again at every depth: the crawl does not return.
\<close>

lemma protoLoop_step:
  "onsite (web protoLoop) ''http://__proto__/'' ''http://__proto__/''
   \<and> normalizeURL (web protoLoop) ''http://__proto__/'' = Inr ''__proto__''
   \<and> fetchHTML (web protoLoop) ''http://__proto__/'' = Inr ''<a href=/>again</a>''
   \<and> getURLsFromHTML (web protoLoop) ''<a href=/>again</a>'' ''http://__proto__/''
       = [''http://__proto__/'']"
  by code_simp

lemma protoLoop_never_returns:
  "pages st = [] \<Longrightarrow>
   crawlPage n (web protoLoop) ''http://__proto__/'' ''http://__proto__/'' st = None"
proof (induction n arbitrary: st)
  case 0
  show ?case by simp
next
  case (Suc n)
  let ?b = "''http://__proto__/''"
  let ?st2 = "logged (entered st ''__proto__'' ?b)
                (getURLsLog (web protoLoop) ''<a href=/>again</a>'' ?b)"
  have fresh: "\<not> visited (pages st) ''__proto__''" using Suc.prems by (simp add: visited_def)
  have empty: "pages ?st2 = []" using Suc.prems by (simp add: assignProp_def)
  have "crawlPage (Suc n) (web protoLoop) ?b ?b st
          = crawlLinks n (web protoLoop) ?b [?b] ?st2"
    using protoLoop_step fresh crawlPage_expanded [of "web protoLoop" ?b ?b "''__proto__''" st]
    by (simp del: crawlPage.simps)
  also have "\<dots> = None" using Suc.IH [OF empty] by simp
  finally show ?case .
qed

section \<open>The claims\<close>









text \<open>
  C4, as the code has it. The key is built from the host name and the path name; the
  query string is not part of it, and two URLs that differ in their query strings
  have the same key.
\<close>

theorem query_strings_share_key_counterexample:
  "normalizeURL (web offline) ''https://example.com/p?a=1'' = Inr ''example.com/p''
   \<and> normalizeURL (web offline) ''https://example.com/p?a=2'' = Inr ''example.com/p''"
  by code_simp

text \<open>
  C4, amended. \<open>normalizeURL\<close> drops query strings and fragments: two valid URLs whose
  parsed forms differ only in \<open>search\<close> and \<open>hash\<close> (and so in \<open>href\<close>) have the same
  key, so the pages are treated as one.
\<close>

theorem normalizeURL_ignores_search_and_hash:
  assumes "newURL pf u1 = Some p"
    and "newURL pf u2 = Some (p\<lparr>search := q, hash := f, href := h\<rparr>)"
  shows "normalizeURL pf u1 = normalizeURL pf u2"
  using assms by (simp add: normalizeURL_Some)

theorem normalizeURL_ignores_search_and_hash_witness:
  "newURL (web offline) ''https://example.com/p?a=1''
     = Some \<lparr>protocol = ''https:'', hostname = ''example.com'', pathname = ''/p'',
             search = ''?a=1'', hash = [], href = ''https://example.com/p?a=1''\<rparr>
   \<and> newURL (web offline) ''https://example.com/p?a=2''
     = Some (\<lparr>protocol = ''https:'', hostname = ''example.com'', pathname = ''/p'',
              search = ''?a=1'', hash = [], href = ''https://example.com/p?a=1''\<rparr>
             \<lparr>search := ''?a=2'', hash := [], href := ''https://example.com/p?a=2''\<rparr>)
   \<and> normalizeURL (web offline) ''https://example.com/p?a=1''
       = normalizeURL (web offline) ''https://example.com/p?a=2''"
proof -
  let ?p = "\<lparr>protocol = ''https:'', hostname = ''example.com'', pathname = ''/p'',
             search = ''?a=1'', hash = [], href = ''https://example.com/p?a=1''\<rparr>"
  have 1: "newURL (web offline) ''https://example.com/p?a=1'' = Some ?p"
    by (simp add: parse_query1)
  have 2: "newURL (web offline) ''https://example.com/p?a=2''
             = Some (?p\<lparr>search := ''?a=2'', hash := [], href := ''https://example.com/p?a=2''\<rparr>)"
    by (simp add: parse_query2)
  from normalizeURL_ignores_search_and_hash [OF 1 2] 1 2 show ?thesis by blast
qed

text \<open>
  C5, as the code has it. Only one leading \<open>www.\<close> is removed: two URLs that differ
  in a leading \<open>www.\<close> label only have different keys when a second such label follows.
\<close>

theorem second_www_label_counterexample:
  "normalizeURL (web offline) ''http://www.www.example.com/'' = Inr ''www.example.com''
   \<and> normalizeURL (web offline) ''http://www.example.com/'' = Inr ''example.com''"
  by code_simp

text \<open>
  C5, amended. Two valid URLs have the same key when their parsed host names and path
  names are equal (which is the case for URLs that differ in the scheme, or in the
  letter case of scheme and host, which the constructor lower-cases); when one host
  name is the other with one \<open>www.\<close> in front and the other does not begin with
  \<open>www.\<close>; when one path name is the other with one \<open>/\<close> at the end and the other does
  not end in \<open>/\<close>; or when the path names differ in letter case only. By these steps
  \<open>https://WWW.Example.com/Path/\<close> and \<open>http://example.com/path\<close> have the same key.
\<close>

theorem normalizeURL_equivalences:
  assumes "newURL pf u1 = Some p1" and "newURL pf u2 = Some p2"
    and "(hostname p1 = hostname p2 \<and> pathname p1 = pathname p2)
       \<or> (hostname p1 = ''www.'' @ hostname p2 \<and> \<not> startsWith (hostname p2) ''www.''
           \<and> pathname p1 = pathname p2)
       \<or> (hostname p1 = hostname p2 \<and> pathname p1 = pathname p2 @ ''/''
           \<and> \<not> endsWith (pathname p2) ''/'')
       \<or> (hostname p1 = hostname p2 \<and> toLowerCase (pathname p1) = toLowerCase (pathname p2))"
  shows "normalizeURL pf u1 = normalizeURL pf u2"
  using assms(3)
proof (elim disjE conjE)
  assume "hostname p1 = hostname p2" "pathname p1 = pathname p2"
  with assms(1,2) show ?thesis by (simp add: normalizeURL_Some)
next
  assume "hostname p1 = ''www.'' @ hostname p2" "\<not> startsWith (hostname p2) ''www.''"
    "pathname p1 = pathname p2"
  with assms(1,2) show ?thesis by (simp add: normalizeURL_Some sliceFrom_def)
next
  assume "hostname p1 = hostname p2" "pathname p1 = pathname p2 @ ''/''"
    "\<not> endsWith (pathname p2) ''/''"
  with assms(1,2) show ?thesis
    by (auto simp: normalizeURL_Some sliceDropLast_def endsWith_slash)
next
  assume h: "hostname p1 = hostname p2" "toLowerCase (pathname p1) = toLowerCase (pathname p2)"
  have "endsWith (pathname p1) ''/'' = endsWith (pathname p2) ''/''"
    using h(2) by (rule endsWith_lower)
  moreover have "toLowerCase (butlast (pathname p1)) = toLowerCase (butlast (pathname p2))"
    using h(2) by (rule butlast_lower)
  ultimately show ?thesis using assms(1,2) h
    by (simp add: normalizeURL_Some sliceDropLast_def toLowerCase_append)
qed

theorem normalizeURL_equivalences_witness:
  "normalizeURL (web offline) ''https://WWW.Example.com/Path/''
     = normalizeURL (web offline) ''http://WWW.Example.com/Path/''
   \<and> normalizeURL (web offline) ''http://WWW.Example.com/Path/''
     = normalizeURL (web offline) ''http://Example.com/Path/''
   \<and> normalizeURL (web offline) ''http://Example.com/Path/''
     = normalizeURL (web offline) ''http://example.com/path/''
   \<and> normalizeURL (web offline) ''http://example.com/path/''
     = normalizeURL (web offline) ''http://example.com/path''
   \<and> normalizeURL (web offline) ''https://WWW.Example.com/Path/''
     = normalizeURL (web offline) ''http://example.com/path/''"
proof -
  let ?n = "normalizeURL (web offline)"
  have a: "newURL (web offline) ''https://WWW.Example.com/Path/'' = Some
     \<lparr>protocol = ''https:'', hostname = ''www.example.com'', pathname = ''/Path/'',
      search = [], hash = [], href = ''https://www.example.com/Path/''\<rparr>"
    by (simp add: parse_upper)
  have b: "newURL (web offline) ''http://WWW.Example.com/Path/'' = Some
     \<lparr>protocol = ''http:'', hostname = ''www.example.com'', pathname = ''/Path/'',
      search = [], hash = [], href = ''http://www.example.com/Path/''\<rparr>"
    by (simp add: parse_upper_http)
  have c: "newURL (web offline) ''http://Example.com/Path/'' = Some
     \<lparr>protocol = ''http:'', hostname = ''example.com'', pathname = ''/Path/'',
      search = [], hash = [], href = ''http://example.com/Path/''\<rparr>"
    by (simp add: parse_bare)
  have d: "newURL (web offline) ''http://example.com/path/'' = Some
     \<lparr>protocol = ''http:'', hostname = ''example.com'', pathname = ''/path/'',
      search = [], hash = [], href = ''http://example.com/path/''\<rparr>"
    by (simp add: parse_lower)
  have e: "newURL (web offline) ''http://example.com/path'' = Some
     \<lparr>protocol = ''http:'', hostname = ''example.com'', pathname = ''/path'',
      search = [], hash = [], href = ''http://example.com/path''\<rparr>"
    by (simp add: parse_plain)
  have low: "toLowerCase ''/Path/'' = toLowerCase ''/path/''" by code_simp
  have ab: "?n ''https://WWW.Example.com/Path/'' = ?n ''http://WWW.Example.com/Path/''"
    by (rule normalizeURL_equivalences [OF a b]) simp
  have bc: "?n ''http://WWW.Example.com/Path/'' = ?n ''http://Example.com/Path/''"
    by (rule normalizeURL_equivalences [OF b c]) simp
  have cd: "?n ''http://Example.com/Path/'' = ?n ''http://example.com/path/''"
    by (rule normalizeURL_equivalences [OF c d]) (simp add: low)
  have de: "?n ''http://example.com/path/'' = ?n ''http://example.com/path''"
    by (rule normalizeURL_equivalences [OF d e]) (simp add: endsWith_def)
  from ab bc cd de show ?thesis by simp
qed

text \<open>
  C6. A call whose URL has a host name other than the seed's (the host names as the
  constructor reports them, compared as they are) returns the state it was given: the
  table and the trace are unchanged, so nothing was inserted, requested or visited.
  And in every run that returns, a key of the final table that was not in the table
  at the start is the key of a URL on the seed's host.
\<close>

theorem offsite_urls_are_skipped:
  "(newURL pf u = Some c \<longrightarrow> newURL pf baseURL = Some b \<longrightarrow> hostname c \<noteq> hostname b
      \<longrightarrow> crawlPage (Suc n) pf baseURL u st = Some (Inr st))
   \<and> (crawlPage m pf baseURL v st0 = Some (Inr st1) \<longrightarrow> map_of (pages st1) k = Some cnt
      \<longrightarrow> map_of (pages st0) k = None
      \<longrightarrow> (\<exists>y. onsite pf baseURL y \<and> normalizeURL pf y = Inr k))"
proof (intro conjI impI)
  assume "newURL pf u = Some c" "newURL pf baseURL = Some b" "hostname c \<noteq> hostname b"
  then show "crawlPage (Suc n) pf baseURL u st = Some (Inr st)"
    by (rule crawlPage_offsite)
next
  assume run: "crawlPage m pf baseURL v st0 = Some (Inr st1)"
    and k: "map_of (pages st1) k = Some cnt" and new: "map_of (pages st0) k = None"
  from run have "pageRun pf baseURL v st0 st1" by (rule crawl_sound(1))
  from run_origin(1) [OF this k] new
  show "\<exists>y. onsite pf baseURL y \<and> normalizeURL pf y = Inr k" by simp
qed

theorem offsite_urls_are_skipped_witness:
  "newURL (web site) ''http://y.org/''
     = Some \<lparr>protocol = ''http:'', hostname = ''y.org'', pathname = ''/'', search = [],
             hash = [], href = ''http://y.org/''\<rparr>
   \<and> newURL (web site) ''http://x.org/''
     = Some \<lparr>protocol = ''http:'', hostname = ''x.org'', pathname = ''/'', search = [],
             hash = [], href = ''http://x.org/''\<rparr>
   \<and> ''y.org'' \<noteq> ''x.org''
   \<and> crawlPage (Suc 0) (web site) ''http://x.org/'' ''http://y.org/'' start = Some (Inr start)
   \<and> crawlPage 3 (web site) ''http://x.org/'' ''http://x.org/'' start = Some (Inr siteFinal)
   \<and> map_of (pages siteFinal) ''x.org/gone'' = Some 1
   \<and> map_of (pages start) ''x.org/gone'' = None
   \<and> map_of (pages siteFinal) ''y.org'' = None
   \<and> (\<exists>y. onsite (web site) ''http://x.org/'' y
          \<and> normalizeURL (web site) y = Inr ''x.org/gone'')"
proof -
  let ?c = "\<lparr>protocol = ''http:'', hostname = ''y.org'', pathname = ''/'', search = [],
             hash = [], href = ''http://y.org/''\<rparr>"
  let ?b = "\<lparr>protocol = ''http:'', hostname = ''x.org'', pathname = ''/'', search = [],
             hash = [], href = ''http://x.org/''\<rparr>"
  have c: "newURL (web site) ''http://y.org/'' = Some ?c" by (simp add: parse_other)
  have b: "newURL (web site) ''http://x.org/'' = Some ?b" by (simp add: parse_seed)
  have ne: "hostname ?c \<noteq> hostname ?b" and ne': "''y.org'' \<noteq> ''x.org''" by simp_all
  have skip: "crawlPage (Suc 0) (web site) ''http://x.org/'' ''http://y.org/'' start
                = Some (Inr start)"
    by (rule offsite_urls_are_skipped [THEN conjunct1, rule_format, OF c b ne])
  have k: "map_of (pages siteFinal) ''x.org/gone'' = Some 1" by (simp add: siteFinal_def)
  have new: "map_of (pages start) ''x.org/gone'' = None" by (simp add: start_def)
  have off: "map_of (pages siteFinal) ''y.org'' = None" by (simp add: siteFinal_def)
  have origin: "\<exists>y. onsite (web site) ''http://x.org/'' y
                    \<and> normalizeURL (web site) y = Inr ''x.org/gone''"
    by (rule offsite_urls_are_skipped [THEN conjunct2, rule_format, OF site_run k new])
  from c b ne' skip site_run k new off origin show ?thesis by blast
qed

text \<open>
  C7 at the host \<open>__proto__\<close>. The home page answers 404. Its key is \<open>__proto__\<close>, the
  assignment \<open>pages[normalizedURL] = 1\<close> leaves the table as it was, and the crawl
  returns the empty table: the page whose fetch failed is not recorded. For every other
  key the failed page is recorded with count 1 and the loop goes on
  (\<open>fetch_failure_recorded\<close>).
\<close>

theorem proto_fetch_failure_not_recorded:
  "crawlPage 1 (web protoGone) ''http://__proto__/'' ''http://__proto__/'' start
     = Some (Inr \<lparr>pages = [],
                  trace = [Console ''crawling http://__proto__/'',
                           Request ''http://__proto__/'',
                           Console ''Got HTTP error: 404 Not Found'']\<rparr>)"
  by code_simp





text \<open>
  C10. Whenever \<open>crawlPage\<close> returns normally, every key of the table it was given is a
  key of the table it returns, with a count at least as large; and if all counts were
  positive before, all counts are positive after.
\<close>

theorem visit_table_only_grows:
  assumes "crawlPage n pf baseURL u st = Some (Inr st')"
  shows "(map_of (pages st) k = Some c \<longrightarrow> (\<exists>c'. map_of (pages st') k = Some c' \<and> c \<le> c'))
       \<and> ((\<forall>k c. map_of (pages st) k = Some c \<longrightarrow> 0 < c)
            \<longrightarrow> (\<forall>k c. map_of (pages st') k = Some c \<longrightarrow> 0 < c))"
proof -
  from assms have run: "pageRun pf baseURL u st st'" by (rule crawl_sound(1))
  from run_grows(1) [OF run] run_positive(1) [OF run] show ?thesis
    unfolding grows_def allPositive_def by blast
qed

theorem visit_table_only_grows_witness:
  "crawlPage 1 (web site) ''http://x.org/'' ''http://x.org/c''
     \<lparr>pages = [(''x.org/old'', 4), (''x.org/c'', 1)], trace = []\<rparr>
   = Some (Inr \<lparr>pages = [(''x.org/old'', 4), (''x.org/c'', 2)], trace = []\<rparr>)
   \<and> map_of [(''x.org/old'', 4 :: nat), (''x.org/c'', 1)] ''x.org/c'' = Some 1
   \<and> (\<exists>c'. map_of [(''x.org/old'', 4 :: nat), (''x.org/c'', 2)] ''x.org/c'' = Some c' \<and> 1 \<le> c')
   \<and> (\<exists>c'. map_of [(''x.org/old'', 4 :: nat), (''x.org/c'', 2)] ''x.org/old'' = Some c' \<and> 4 \<le> c')"
proof -
  let ?st = "\<lparr>pages = [(''x.org/old'', 4), (''x.org/c'', 1)], trace = []\<rparr>"
  let ?st' = "\<lparr>pages = [(''x.org/old'', 4), (''x.org/c'', 2)], trace = []\<rparr>"
  have c: "map_of (pages ?st) ''x.org/c'' = Some 1" by simp
  have old: "map_of (pages ?st) ''x.org/old'' = Some 4" by simp
  have 1: "\<exists>c'. map_of (pages ?st') ''x.org/c'' = Some c' \<and> 1 \<le> c'"
    by (rule visit_table_only_grows [OF site_revisit_c, THEN conjunct1, rule_format, OF c])
  have 2: "\<exists>c'. map_of (pages ?st') ''x.org/old'' = Some c' \<and> 4 \<le> c'"
    by (rule visit_table_only_grows [OF site_revisit_c, THEN conjunct1, rule_format, OF old])
  from site_revisit_c c 1 2 show ?thesis by simp
qed

end
